theory Spec2Isabelle
  imports Complex_Main "HOL-Library.Sublist"
begin

section \<open>JavaScript values used by the components\<close>

text \<open>
  The numbers of the planner are results of \<open>parseInt\<close>, integer literals, and sums,
  differences and products of these: IEEE doubles whose value is an integer, the two
  infinities, or \<open>NaN\<close>. \<open>Num x\<close> is the double of value \<open>x\<close>; every operation rounds its
  exact result to the nearest double, as the machine does. The sign of zero is outside
  the model.
\<close>

datatype number = Num int | PosInf | NegInf | NaN

text \<open>The number of binary digits of a positive integer, \<open>0\<close> for any other.\<close>

function bit_length :: "int \<Rightarrow> nat" where
  "bit_length n = (if n \<le> 0 then 0 else Suc (bit_length (n div 2)))"
  by pat_completeness auto
termination
  by (relation "measure nat") auto

declare bit_length.simps [simp del]

text \<open>
  The double nearest to an integer: the magnitude keeps its 53 leading binary digits,
  rounded to nearest with ties to the even significand, and a result of \<open>2^1024\<close> or more
  is an infinity.
\<close>

definition round_to_double :: "int \<Rightarrow> number" where
  "round_to_double x =
     (let a = \<bar>x\<bar>;
          e = bit_length a - 53;
          q = a div 2 ^ e;
          r = a mod 2 ^ e;
          q1 = (if 2 ^ e < 2 * r \<or> (2 * r = 2 ^ e \<and> odd q) then q + 1 else q);
          m = q1 * 2 ^ e
      in if 2 ^ 1024 \<le> m then (if x < 0 then NegInf else PosInf)
         else Num (if x < 0 then - m else m))"

text \<open>\<open>- a\<close>, \<open>a + b\<close>, \<open>a - b\<close> and \<open>a * b\<close> on numbers.\<close>

fun js_neg :: "number \<Rightarrow> number" where
  "js_neg (Num a) = Num (- a)"
| "js_neg PosInf = NegInf"
| "js_neg NegInf = PosInf"
| "js_neg NaN = NaN"

fun js_add :: "number \<Rightarrow> number \<Rightarrow> number" where
  "js_add (Num a) (Num b) = round_to_double (a + b)"
| "js_add NaN _ = NaN"
| "js_add _ NaN = NaN"
| "js_add PosInf NegInf = NaN"
| "js_add NegInf PosInf = NaN"
| "js_add PosInf _ = PosInf"
| "js_add NegInf _ = NegInf"
| "js_add (Num a) PosInf = PosInf"
| "js_add (Num a) NegInf = NegInf"

definition js_sub :: "number \<Rightarrow> number \<Rightarrow> number" where
  "js_sub a b = js_add a (js_neg b)"

text \<open>An infinity times a number: the sign of the product, \<open>NaN\<close> for \<open>0\<close>.\<close>

definition inf_times :: "bool \<Rightarrow> int \<Rightarrow> number" where
  "inf_times positive b =
     (if b = 0 then NaN else if (0 < b) = positive then PosInf else NegInf)"

fun js_mul :: "number \<Rightarrow> number \<Rightarrow> number" where
  "js_mul (Num a) (Num b) = round_to_double (a * b)"
| "js_mul NaN _ = NaN"
| "js_mul _ NaN = NaN"
| "js_mul PosInf PosInf = PosInf"
| "js_mul PosInf NegInf = NegInf"
| "js_mul NegInf PosInf = NegInf"
| "js_mul NegInf NegInf = PosInf"
| "js_mul PosInf (Num b) = inf_times True b"
| "js_mul NegInf (Num b) = inf_times False b"
| "js_mul (Num a) PosInf = inf_times True a"
| "js_mul (Num a) NegInf = inf_times False a"

text \<open>\<open>a == b\<close> and \<open>a <= b\<close> on numbers: every comparison with \<open>NaN\<close> is false.\<close>

fun js_eq :: "number \<Rightarrow> number \<Rightarrow> bool" where
  "js_eq (Num a) (Num b) = (a = b)"
| "js_eq PosInf PosInf = True"
| "js_eq NegInf NegInf = True"
| "js_eq _ _ = False"

fun js_le :: "number \<Rightarrow> number \<Rightarrow> bool" where
  "js_le (Num a) (Num b) = (a \<le> b)"
| "js_le NaN _ = False"
| "js_le _ NaN = False"
| "js_le NegInf _ = True"
| "js_le _ PosInf = True"
| "js_le _ _ = False"

text \<open>\<open>x || 0\<close>: the falsy numbers are \<open>0\<close> and \<open>NaN\<close>; an infinity is truthy.\<close>

fun or_zero :: "number \<Rightarrow> number" where
  "or_zero NaN = Num 0"
| "or_zero x = x"

text \<open>Is the number an integer, and is it a positive integer? An infinity is neither.\<close>

fun is_integer :: "number \<Rightarrow> bool" where
  "is_integer (Num a) = True"
| "is_integer _ = False"

fun is_positive_integer :: "number \<Rightarrow> bool" where
  "is_positive_integer (Num a) = (0 < a)"
| "is_positive_integer _ = False"

subsection \<open>\<open>Number.prototype.toString\<close> on a non-negative integer\<close>

definition digit_char :: "nat \<Rightarrow> char" where
  "digit_char d = char_of (48 + d)"

fun toString :: "nat \<Rightarrow> string" where
  "toString n = (if n < 10 then [digit_char n] else toString (n div 10) @ [digit_char (n mod 10)])"

declare toString.simps [simp del]

subsection \<open>\<open>parseInt\<close> with no radix argument\<close>

text \<open>
  Characters are 8-bit code units. The white space of the standard that fits in 8 bits:
  space, TAB, LF, VT, FF, CR and NBSP. The result is the double nearest to the integer
  the digits denote, an infinity when that is too large. (Past the 20th significant
  decimal digit the standard lets an implementation read a digit as \<open>0\<close>; the model reads
  every digit.)
\<close>

definition isWhiteSpace :: "char \<Rightarrow> bool" where
  "isWhiteSpace c = (c \<in> set [CHR '' '', CHR 0x09, CHR 0x0A, CHR 0x0B, CHR 0x0C, CHR 0x0D, CHR 0xA0])"

text \<open>The value of a digit in any radix up to 16; 99 for a character that is no digit.\<close>

definition digit_val :: "char \<Rightarrow> nat" where
  "digit_val c =
     (let k = of_char c :: nat in
      if 48 \<le> k \<and> k \<le> 57 then k - 48
      else if 97 \<le> k \<and> k \<le> 102 then k - 87
      else if 65 \<le> k \<and> k \<le> 70 then k - 55
      else 99)"

definition parseInt :: "string \<Rightarrow> number" where
  "parseInt inputString =
     (let S = dropWhile isWhiteSpace inputString;
          sign = (case S of c # _ \<Rightarrow> if c = CHR ''-'' then - 1 else 1 | [] \<Rightarrow> (1::int));
          S1 = (case S of c # cs \<Rightarrow> if c = CHR ''+'' \<or> c = CHR ''-'' then cs else S | [] \<Rightarrow> S);
          hex = (take 2 S1 = ''0x'' \<or> take 2 S1 = ''0X'');
          R = (if hex then 16 else 10 :: nat);
          S2 = (if hex then drop 2 S1 else S1);
          Z = takeWhile (\<lambda>c. digit_val c < R) S2
      in if Z = [] then NaN
         else round_to_double (sign * foldl (\<lambda>acc c. acc * int R + int (digit_val c)) 0 Z))"

subsection \<open>\<open>String.prototype.replace\<close> with a string pattern: the first occurrence only\<close>

fun replace :: "string \<Rightarrow> string \<Rightarrow> string \<Rightarrow> string" where
  "replace pat rep [] = (if pat = [] then rep else [])"
| "replace pat rep (c # cs) =
     (if prefix pat (c # cs) then rep @ drop (length pat) (c # cs)
      else c # replace pat rep cs)"

section \<open>SequencePlanner\<close>

text \<open>The union \<open>'subs' | 'darks' | 'bias' | 'flats'\<close>.\<close>

datatype seq_type = Subs | Darks | Bias | Flats

text \<open>The union \<open>'pending' | 'running' | 'completed' | 'paused'\<close> of \<open>SequenceItem.status\<close>.\<close>

datatype status = Pending | Running | Completed | Paused

text \<open>The string literal each member of the union is, as the badge renders it.\<close>

fun status_name :: "status \<Rightarrow> string" where
  "status_name Pending = ''pending''"
| "status_name Running = ''running''"
| "status_name Completed = ''completed''"
| "status_name Paused = ''paused''"

text \<open>Which member of the union a string is, if any.\<close>

definition status_of_string :: "string \<Rightarrow> status option" where
  "status_of_string n =
     (if n = ''pending'' then Some Pending
      else if n = ''running'' then Some Running
      else if n = ''completed'' then Some Completed
      else if n = ''paused'' then Some Paused
      else None)"

text \<open>
  \<open>interface SequenceItem\<close>. The fields \<open>id\<close> and \<open>type\<close> are \<open>seq_id\<close> and \<open>seq_type\<close> here.
  The object that \<open>addSequence\<close> builds also carries the \<open>interval\<close> of the form, which the
  interface does not declare and nothing reads.
\<close>

record SequenceItem =
  seq_id :: string
  seq_type :: seq_type
  frames :: number
  exposure :: string
  gain :: number
  completed :: number
  status :: status

text \<open>The state \<open>newSequence\<close> of the add form.\<close>

record NewSequence =
  new_type :: seq_type
  new_frames :: number
  new_exposure :: string
  new_gain :: number
  new_interval :: number

text \<open>The two pieces of \<open>useState\<close> of the component.\<close>

record planner =
  sequences :: "SequenceItem list"
  newSequence :: NewSequence

definition initial_sequences :: "SequenceItem list" where
  "initial_sequences =
     [\<lparr>seq_id = ''1'', seq_type = Subs, frames = Num 30, exposure = [CHR ''3'', CHR ''0'', CHR ''0'', CHR 0x22],
       gain = Num 1600, completed = Num 12, status = Running\<rparr>,
      \<lparr>seq_id = ''2'', seq_type = Darks, frames = Num 10, exposure = [CHR ''3'', CHR ''0'', CHR ''0'', CHR 0x22],
       gain = Num 1600, completed = Num 0, status = Pending\<rparr>]"

definition initial_newSequence :: NewSequence where
  "initial_newSequence =
     \<lparr>new_type = Subs, new_frames = Num 30, new_exposure = [CHR ''3'', CHR ''0'', CHR ''0'', CHR 0x22],
      new_gain = Num 1600, new_interval = Num 5\<rparr>"

definition initial_planner :: planner where
  "initial_planner = \<lparr>sequences = initial_sequences, newSequence = initial_newSequence\<rparr>"

text \<open>
  \<open>addSequence\<close>: \<open>now\<close> is what \<open>Date.now()\<close> returns. The spread of \<open>newSequence\<close> comes
  before \<open>completed\<close> and \<open>status\<close>, which are therefore always \<open>0\<close> and \<open>'pending'\<close>.
\<close>

definition addSequence :: "nat \<Rightarrow> planner \<Rightarrow> planner" where
  "addSequence now s =
     (let sequence =
        \<lparr>seq_id = toString now,
         seq_type = new_type (newSequence s),
         frames = new_frames (newSequence s),
         exposure = new_exposure (newSequence s),
         gain = new_gain (newSequence s),
         completed = Num 0,
         status = Pending\<rparr>
      in s\<lparr>sequences := sequences s @ [sequence]\<rparr>)"

text \<open>The four \<open>onChange\<close> and \<open>onValueChange\<close> handlers of the add form.\<close>

definition setType :: "seq_type \<Rightarrow> planner \<Rightarrow> planner" where
  "setType v s = s\<lparr>newSequence := (newSequence s)\<lparr>new_type := v\<rparr>\<rparr>"

definition setFrames :: "string \<Rightarrow> planner \<Rightarrow> planner" where
  "setFrames v s = s\<lparr>newSequence := (newSequence s)\<lparr>new_frames := parseInt v\<rparr>\<rparr>"

definition setExposure :: "string \<Rightarrow> planner \<Rightarrow> planner" where
  "setExposure v s = s\<lparr>newSequence := (newSequence s)\<lparr>new_exposure := v\<rparr>\<rparr>"

definition setGain :: "string \<Rightarrow> planner \<Rightarrow> planner" where
  "setGain v s = s\<lparr>newSequence := (newSequence s)\<lparr>new_gain := parseInt v\<rparr>\<rparr>"

text \<open>
  Every event of the component that changes its state; the Start, Pause and Stop buttons
  have no handler.
\<close>

datatype planner_event =
  AddSequence nat
| SetType seq_type
| SetFrames string
| SetExposure string
| SetGain string

fun planner_step :: "planner \<Rightarrow> planner_event \<Rightarrow> planner" where
  "planner_step s (AddSequence now) = addSequence now s"
| "planner_step s (SetType v) = setType v s"
| "planner_step s (SetFrames v) = setFrames v s"
| "planner_step s (SetExposure v) = setExposure v s"
| "planner_step s (SetGain v) = setGain v s"

text \<open>The state after a sequence of events, from the initial state of the component.\<close>

definition planner_run :: "planner_event list \<Rightarrow> planner" where
  "planner_run evs = foldl planner_step initial_planner evs"

text \<open>How many items are running.\<close>

definition running_count :: "SequenceItem list \<Rightarrow> nat" where
  "running_count items = length (filter (\<lambda>i. status i = Running) items)"

text \<open>\<open>totalDuration\<close>: the \<open>reduce\<close> over \<open>sequences\<close>, from \<open>0\<close>.\<close>

definition exposureSeconds :: "SequenceItem \<Rightarrow> number" where
  "exposureSeconds seq = or_zero (parseInt (replace [CHR 0x22] [] (exposure seq)))"

definition totalDuration :: "SequenceItem list \<Rightarrow> number" where
  "totalDuration seqs =
     foldl (\<lambda>total seq. js_add total (js_mul (frames seq) (exposureSeconds seq))) (Num 0) seqs"

text \<open>The integer a number holds, \<open>0\<close> for one that is no integer: used to state sums only.\<close>

fun num_val :: "number \<Rightarrow> int" where
  "num_val (Num a) = a"
| "num_val _ = 0"

text \<open>
  The text entered last in the frames field of the form in a sequence of events, if any:
  used to state where the frames value of the form comes from.
\<close>

definition entered_frames :: "planner_event list \<Rightarrow> string option" where
  "entered_frames evs =
     foldl (\<lambda>entered ev. case ev of SetFrames v \<Rightarrow> Some v | _ \<Rightarrow> entered) None evs"

text \<open>
  The remaining time as the specification words it: over the pending and the running
  groups only, the frames not yet completed times the exposure in seconds.
\<close>

definition spec_remainingSeconds :: "SequenceItem list \<Rightarrow> number" where
  "spec_remainingSeconds seqs =
     foldl (\<lambda>total seq.
              if status seq = Pending \<or> status seq = Running
              then js_add total (js_mul (js_sub (frames seq) (completed seq)) (exposureSeconds seq))
              else total)
       (Num 0) seqs"

section \<open>FileLibrary\<close>

text \<open>The union \<open>'jpeg' | 'dng' | 'h264' | 'mjpeg' | 'tiff' | 'json'\<close>.\<close>

datatype file_type = Jpeg | Dng | H264 | Mjpeg | Tiff | Json

record Metadata =
  meta_exposure :: "string option"
  iso :: "number option"
  resolution :: "string option"
  duration :: "number option"

text \<open>
  \<open>interface FileItem\<close>. The fields \<open>id\<close>, \<open>name\<close>, \<open>type\<close> and \<open>size\<close> are \<open>file_id\<close>,
  \<open>file_name\<close>, \<open>file_type\<close> and \<open>file_size\<close> here; \<open>timestamp\<close> is the string the \<open>Date\<close> is
  built from.
\<close>

record FileItem =
  file_id :: string
  file_name :: string
  file_type :: file_type
  file_size :: number
  timestamp :: string
  session :: string
  metadata :: "Metadata option"

text \<open>The resolution strings hold the multiplication sign, code unit \<open>0xD7\<close>.\<close>

definition mockFiles :: "FileItem list" where
  "mockFiles =
     [\<lparr>file_id = ''1'', file_name = ''M31_001.dng'', file_type = Dng, file_size = Num 25600000,
       timestamp = ''2024-01-15T22:30:00'', session = ''M31_20240115'',
       metadata = Some \<lparr>meta_exposure = Some (''300'' @ [CHR 0x22]), iso = Some (Num 1600),
                         resolution = Some (''4056'' @ [CHR 0xD7] @ ''3040''), duration = None\<rparr>\<rparr>,
      \<lparr>file_id = ''2'', file_name = ''M31_001.jpg'', file_type = Jpeg, file_size = Num 8400000,
       timestamp = ''2024-01-15T22:30:00'', session = ''M31_20240115'',
       metadata = Some \<lparr>meta_exposure = Some (''300'' @ [CHR 0x22]), iso = Some (Num 1600),
                         resolution = Some (''4056'' @ [CHR 0xD7] @ ''3040''), duration = None\<rparr>\<rparr>,
      \<lparr>file_id = ''3'', file_name = ''preview_001.h264'', file_type = H264, file_size = Num 15600000,
       timestamp = ''2024-01-15T22:25:00'', session = ''M31_20240115'',
       metadata = Some \<lparr>meta_exposure = None, iso = None,
                         resolution = Some (''1920'' @ [CHR 0xD7] @ ''1080''), duration = Some (Num 30)\<rparr>\<rparr>,
      \<lparr>file_id = ''4'', file_name = ''dark_001.dng'', file_type = Dng, file_size = Num 25600000,
       timestamp = ''2024-01-15T23:00:00'', session = ''M31_20240115'',
       metadata = Some \<lparr>meta_exposure = Some (''300'' @ [CHR 0x22]), iso = Some (Num 1600),
                         resolution = Some (''4056'' @ [CHR 0xD7] @ ''3040''), duration = None\<rparr>\<rparr>,
      \<lparr>file_id = ''5'', file_name = ''session.json'', file_type = Json, file_size = Num 2048,
       timestamp = ''2024-01-15T22:00:00'', session = ''M31_20240115'',
       metadata = None\<rparr>]"

text \<open>
  \<open>String.prototype.toLowerCase\<close> on 8-bit code units: the letters \<open>A\<close> to \<open>Z\<close> and the
  capital letters of Latin-1 (\<open>0xC0\<close> to \<open>0xDE\<close>, but not the multiplication sign) move up
  by 32; every other code unit stays.
\<close>

definition lower_char :: "char \<Rightarrow> char" where
  "lower_char c =
     (let k = of_char c :: nat in
      if (65 \<le> k \<and> k \<le> 90) \<or> (192 \<le> k \<and> k \<le> 222 \<and> k \<noteq> 215) then char_of (k + 32) else c)"

definition toLowerCase :: "string \<Rightarrow> string" where
  "toLowerCase s = map lower_char s"

text \<open>\<open>String.prototype.includes\<close>: does \<open>t\<close> occur in \<open>s\<close>, at any position?\<close>

fun str_includes :: "string \<Rightarrow> string \<Rightarrow> bool" where
  "str_includes [] t = (t = [])"
| "str_includes (c # cs) t = (prefix t (c # cs) \<or> str_includes cs t)"

text \<open>
  The callback of \<open>mockFiles.filter\<close>, with its early returns in the order of the source.
  The empty search term is falsy.
\<close>

definition keep_file :: "string \<Rightarrow> string \<Rightarrow> FileItem \<Rightarrow> bool" where
  "keep_file filterType searchTerm file =
     (if filterType \<noteq> ''all'' \<and> filterType = ''image'' \<and> file_type file \<notin> set [Jpeg, Dng, Tiff]
        then False
      else if filterType \<noteq> ''all'' \<and> filterType = ''video'' \<and> file_type file \<notin> set [H264, Mjpeg]
        then False
      else if filterType \<noteq> ''all'' \<and> filterType = ''raw'' \<and> file_type file \<noteq> Dng
        then False
      else if searchTerm \<noteq> [] \<and> \<not> str_includes (toLowerCase (file_name file)) (toLowerCase searchTerm)
        then False
      else True)"

definition filteredFiles :: "string \<Rightarrow> string \<Rightarrow> FileItem list" where
  "filteredFiles filterType searchTerm = filter (keep_file filterType searchTerm) mockFiles"

text \<open>
  \<open>groupedFiles\<close>: the object built by \<open>reduce\<close> is an association list in the order in
  which the keys were added.
\<close>

definition add_to_group :: "(string \<times> FileItem list) list \<Rightarrow> FileItem \<Rightarrow> (string \<times> FileItem list) list" where
  "add_to_group groups file =
     (let groups1 = (if map_of groups (session file) = None then groups @ [(session file, [])] else groups)
      in map (\<lambda>(k, fs). if k = session file then (k, fs @ [file]) else (k, fs)) groups1)"

definition groupedFiles :: "string \<Rightarrow> string \<Rightarrow> (string \<times> FileItem list) list" where
  "groupedFiles filterType searchTerm = foldl add_to_group [] (filteredFiles filterType searchTerm)"

text \<open>The four pieces of \<open>useState\<close> of the component, and the handlers that set them.\<close>

datatype view_mode = Grid | ListView

record library =
  viewMode :: view_mode
  sortBy :: string
  filterType :: string
  searchTerm :: string

definition initial_library :: library where
  "initial_library = \<lparr>viewMode = Grid, sortBy = ''date'', filterType = ''all'', searchTerm = []\<rparr>"

datatype library_event =
  SetViewMode view_mode
| SetSortBy string
| SetFilterType string
| SetSearchTerm string

fun library_step :: "library \<Rightarrow> library_event \<Rightarrow> library" where
  "library_step s (SetViewMode v) = s\<lparr>viewMode := v\<rparr>"
| "library_step s (SetSortBy v) = s\<lparr>sortBy := v\<rparr>"
| "library_step s (SetFilterType v) = s\<lparr>filterType := v\<rparr>"
| "library_step s (SetSearchTerm v) = s\<lparr>searchTerm := v\<rparr>"

definition library_run :: "library_event list \<Rightarrow> library" where
  "library_run evs = foldl library_step initial_library evs"

text \<open>The list both the grid and the list view map over, and the groups of the sessions tab.\<close>

definition displayed_files :: "library \<Rightarrow> FileItem list" where
  "displayed_files s = filteredFiles (filterType s) (searchTerm s)"

definition displayed_groups :: "library \<Rightarrow> (string \<times> FileItem list) list" where
  "displayed_groups s = groupedFiles (filterType s) (searchTerm s)"

text \<open>The values of the four \<open>SelectItem\<close>s of the filter.\<close>

definition filterTypes :: "string list" where
  "filterTypes = [''all'', ''image'', ''video'', ''raw'']"

text \<open>
  The filter as the specification words it: the category test on the type of the file,
  and the search term occurring in the name when letter case is ignored, that is, some
  contiguous part of the name is the search term up to letter case.
\<close>

definition spec_category :: "string \<Rightarrow> file_type \<Rightarrow> bool" where
  "spec_category ft t =
     ((ft = ''image'' \<and> (t = Jpeg \<or> t = Dng \<or> t = Tiff)) \<or>
      (ft = ''video'' \<and> (t = H264 \<or> t = Mjpeg)) \<or>
      (ft = ''raw'' \<and> t = Dng) \<or>
      ft = ''all'')"

definition spec_contains_ci :: "string \<Rightarrow> string \<Rightarrow> bool" where
  "spec_contains_ci name term =
     list_ex (\<lambda>part. toLowerCase part = toLowerCase term) (sublists name)"

definition spec_filter :: "string \<Rightarrow> string \<Rightarrow> FileItem list" where
  "spec_filter ft term =
     filter (\<lambda>file. spec_category ft (file_type file) \<and> spec_contains_ci (file_name file) term) mockFiles"

section \<open>TelemetryPanel\<close>

text \<open>
  \<open>interface TelemetryData\<close>. The numbers are reals: the tick adds random fractions to
  them. An optional field is an \<open>option\<close>, \<open>None\<close> for \<open>undefined\<close>.
\<close>

record TelemetryData =
  sensorTemp :: real
  cpuTemp :: real
  cpuUsage :: real
  storageUsed :: real
  storageTotal :: real
  batteryLevel :: "real option"
  wifiSignal :: real
  focusMetric :: real
  exposureRemaining :: "real option"

definition initial_telemetry :: TelemetryData where
  "initial_telemetry =
     \<lparr>sensorTemp = 42.5, cpuTemp = 65.2, cpuUsage = 35, storageUsed = 125.6, storageTotal = 512,
      batteryLevel = Some 78, wifiSignal = 85, focusMetric = 892, exposureRemaining = Some 245\<rparr>"

text \<open>The four results of \<open>Math.random()\<close> of one tick, in the order of the calls.\<close>

record randoms =
  r_sensorTemp :: real
  r_cpuTemp :: real
  r_cpuUsage :: real
  r_focusMetric :: real

text \<open>
  The updater passed to \<open>setTelemetry\<close> every second. In
  \<open>prev.exposureRemaining ? \<dots> : undefined\<close> both \<open>undefined\<close> and \<open>0\<close> are falsy.
\<close>

definition tick :: "randoms \<Rightarrow> TelemetryData \<Rightarrow> TelemetryData" where
  "tick r prev =
     prev\<lparr>sensorTemp := sensorTemp prev + (r_sensorTemp r - 0.5) * 0.5,
          cpuTemp := cpuTemp prev + (r_cpuTemp r - 0.5) * 2,
          cpuUsage := max 10 (min 90 (cpuUsage prev + (r_cpuUsage r - 0.5) * 10)),
          focusMetric := focusMetric prev + (r_focusMetric r - 0.5) * 50,
          exposureRemaining :=
            (case exposureRemaining prev of
               None \<Rightarrow> None
             | Some e \<Rightarrow> if e \<noteq> 0 then Some (max 0 (e - 1)) else None)\<rparr>"

text \<open>The state after the ticks with the given random results, from the initial state.\<close>

definition ticks :: "randoms list \<Rightarrow> TelemetryData" where
  "ticks rs = foldl (\<lambda>s r. tick r s) initial_telemetry rs"

text \<open>The predicate of the panel: the bounds on \<open>cpuUsage\<close> and on \<open>exposureRemaining\<close>.\<close>

definition telemetry_ok :: "TelemetryData \<Rightarrow> bool" where
  "telemetry_ok s =
     (10 \<le> cpuUsage s \<and> cpuUsage s \<le> 90 \<and>
      (case exposureRemaining s of None \<Rightarrow> True | Some e \<Rightarrow> 0 \<le> e))"

section \<open>Rounding\<close>

lemma bit_length_le: "n < 2 ^ k \<Longrightarrow> bit_length n \<le> k"
proof (induction k arbitrary: n)
  case 0
  then have "n \<le> 0" by simp
  then show ?case by (subst bit_length.simps) simp
next
  case (Suc k)
  show ?case
  proof (cases "n \<le> 0")
    case True
    then show ?thesis by (subst bit_length.simps) simp
  next
    case False
    from Suc.prems have "n div 2 < 2 ^ k" by simp
    then have "bit_length (n div 2) \<le> k" by (rule Suc.IH)
    with False show ?thesis by (subst bit_length.simps) simp
  qed
qed

lemma round_to_double_exact:
  assumes "\<bar>x\<bar> < 2 ^ 53"
  shows "round_to_double x = Num x"
proof -
  have e: "bit_length \<bar>x\<bar> - 53 = 0"
    using bit_length_le [OF assms] by simp
  have "(2::int) ^ 53 \<le> 2 ^ 1024" by (rule power_increasing) simp_all
  with assms have big: "\<not> (2::int) ^ 1024 \<le> \<bar>x\<bar>" by linarith
  show ?thesis
    unfolding round_to_double_def Let_def e using big by auto
qed

lemma js_add_exact: "\<bar>a + b\<bar> < 2 ^ 53 \<Longrightarrow> js_add (Num a) (Num b) = Num (a + b)"
  by (simp add: round_to_double_exact)

lemma js_mul_exact: "\<bar>a * b\<bar> < 2 ^ 53 \<Longrightarrow> js_mul (Num a) (Num b) = Num (a * b)"
  by (simp add: round_to_double_exact)

section \<open>Properties of the SequencePlanner\<close>

subsection \<open>What an event does to the list of items\<close>

lemma addSequence_append:
  "sequences (addSequence now s) = sequences s @ [last (sequences (addSequence now s))]"
  by (simp add: addSequence_def)

lemma addSequence_last:
  "completed (last (sequences (addSequence now s))) = Num 0"
  "status (last (sequences (addSequence now s))) = Pending"
  "frames (last (sequences (addSequence now s))) = new_frames (newSequence s)"
  by (simp_all add: addSequence_def)

lemma addSequence_newSequence: "newSequence (addSequence now s) = newSequence s"
  by (simp add: addSequence_def)

lemma planner_step_cases:
  "sequences (planner_step s ev) = sequences s \<or>
   (\<exists>now. planner_step s ev = addSequence now s)"
proof (cases ev)
  case (AddSequence now)
  then have "planner_step s ev = addSequence now s" by simp
  then show ?thesis by blast
qed (simp_all add: setType_def setFrames_def setExposure_def setGain_def)

lemma planner_items_step:
  assumes old: "\<And>i. i \<in> set (sequences s) \<Longrightarrow> P i"
    and new: "\<And>i. completed i = Num 0 \<Longrightarrow> status i = Pending \<Longrightarrow> P i"
    and j: "j \<in> set (sequences (planner_step s ev))"
  shows "P j"
proof -
  consider "sequences (planner_step s ev) = sequences s"
    | now where "planner_step s ev = addSequence now s"
    using planner_step_cases [of s ev] by blast
  then show ?thesis
  proof cases
    case 1
    with j old show ?thesis by simp
  next
    case 2
    with j have "j \<in> set (sequences s @ [last (sequences (addSequence now s))])"
      using addSequence_append [of now s] by simp
    then have "j \<in> set (sequences s) \<or> j = last (sequences (addSequence now s))"
      by auto
    then show ?thesis
      using old new [of "last (sequences (addSequence now s))"] addSequence_last(1,2) [of now s]
      by blast
  qed
qed

lemma planner_items_foldl:
  assumes old: "\<And>i. i \<in> set (sequences s) \<Longrightarrow> P i"
    and new: "\<And>i. completed i = Num 0 \<Longrightarrow> status i = Pending \<Longrightarrow> P i"
  shows "i \<in> set (sequences (foldl planner_step s evs)) \<Longrightarrow> P i"
  using old
proof (induction evs arbitrary: s)
  case Nil
  then show ?case by simp
next
  case (Cons ev evs)
  have "\<And>j. j \<in> set (sequences (planner_step s ev)) \<Longrightarrow> P j"
    using planner_items_step [of s P _ ev] Cons.prems(2) new by blast
  with Cons.IH [of "planner_step s ev"] Cons.prems(1) show ?case by simp
qed

lemma planner_items_run:
  assumes init: "\<And>i. i \<in> set initial_sequences \<Longrightarrow> P i"
    and new: "\<And>i. completed i = Num 0 \<Longrightarrow> status i = Pending \<Longrightarrow> P i"
    and i: "i \<in> set (sequences (planner_run evs))"
  shows "P i"
proof (rule planner_items_foldl [of initial_planner P i evs])
  show "\<And>i. i \<in> set (sequences initial_planner) \<Longrightarrow> P i"
    by (simp add: init initial_planner_def)
  show "\<And>i. completed i = Num 0 \<Longrightarrow> status i = Pending \<Longrightarrow> P i"
    by (rule new)
  show "i \<in> set (sequences (foldl planner_step initial_planner evs))"
    using i by (simp add: planner_run_def)
qed

lemma step_keeps_items:
  assumes "k < length (sequences s)"
  shows "k < length (sequences (planner_step s ev)) \<and> sequences (planner_step s ev) ! k = sequences s ! k"
proof -
  consider "sequences (planner_step s ev) = sequences s"
    | now where "planner_step s ev = addSequence now s"
    using planner_step_cases [of s ev] by blast
  then show ?thesis
  proof cases
    case 1
    with assms show ?thesis by simp
  next
    case 2
    have "sequences (planner_step s ev) = sequences s @ [last (sequences (addSequence now s))]"
      using 2 addSequence_append [of now s] by simp
    with assms show ?thesis by (simp add: nth_append)
  qed
qed

lemma js_eq_zero_iff: "js_eq (Num 0) x = (x = Num 0)"
  by (cases x) auto

lemma running_count_addSequence:
  "running_count (sequences (addSequence now s)) = running_count (sequences s)"
  by (simp add: addSequence_def running_count_def)

lemma running_count_step:
  "running_count (sequences (planner_step s ev)) = running_count (sequences s)"
  using planner_step_cases [of s ev] by (auto simp: running_count_addSequence)

lemma running_count_foldl:
  "running_count (sequences (foldl planner_step s evs)) = running_count (sequences s)"
  by (induction evs arbitrary: s) (simp_all add: running_count_step)

lemma running_count_initial: "running_count (sequences initial_planner) = 1"
  by (simp add: initial_planner_def initial_sequences_def running_count_def)

text \<open>
  Claim C1. The initial state of the planner has at most one running item, \<open>addSequence\<close>
  leaves the number of running items as it is, and so in every state the planner reaches,
  by any sequence of events, at most one item is running.
\<close>

theorem at_most_one_running:
  "running_count (sequences initial_planner) \<le> 1 \<and>
   running_count (sequences (addSequence now s)) = running_count (sequences s) \<and>
   running_count (sequences (planner_run evs)) \<le> 1"
  by (simp add: planner_run_def running_count_foldl running_count_addSequence running_count_initial)

subsection \<open>Items added from the form\<close>

lemma parseInt_5: "parseInt ''5'' = Num 5" by code_simp
lemma parseInt_0: "parseInt ''0'' = Num 0" by code_simp
lemma parseInt_neg5: "parseInt ''-5'' = Num (- 5)" by code_simp
lemma parseInt_empty: "parseInt [] = NaN" by code_simp
lemma toString_7: "toString 7 = ''7''" by code_simp

text \<open>
  Claim C2, amended. In every state the planner reaches, for every item whose frames count
  is not \<open>0\<close> the status is \<open>completed\<close> if and only if the completed count equals the
  frames count. No item has the status \<open>completed\<close>, and the completed count equals the
  frames count exactly for the items whose frames count is \<open>0\<close>: the form accepts the text
  \<open>0\<close>, and the item added then has \<open>completed = frames = 0\<close> with status \<open>pending\<close>.
\<close>

theorem completed_iff_frames:
  "i \<in> set (sequences (planner_run evs)) \<Longrightarrow>
   (frames i \<noteq> Num 0 \<longrightarrow> (status i = Completed) = js_eq (completed i) (frames i)) \<and>
   status i \<noteq> Completed \<and>
   js_eq (completed i) (frames i) = (frames i = Num 0)"
proof -
  assume i: "i \<in> set (sequences (planner_run evs))"
  let ?P = "\<lambda>i. status i \<noteq> Completed \<and> js_eq (completed i) (frames i) = (frames i = Num 0)"
  have "?P i"
  proof (rule planner_items_run [of ?P i evs])
    show "\<And>i. i \<in> set initial_sequences \<Longrightarrow> ?P i"
      by (auto simp: initial_sequences_def)
    show "\<And>i. completed i = Num 0 \<Longrightarrow> status i = Pending \<Longrightarrow> ?P i"
      by (simp add: js_eq_zero_iff)
    show "i \<in> set (sequences (planner_run evs))" by (rule i)
  qed
  then show ?thesis by auto
qed

lemma run_frames_5:
  "sequences (planner_run [SetFrames ''5'', AddSequence 7]) =
   initial_sequences @ [\<lparr>seq_id = ''7'', seq_type = Subs, frames = Num 5, exposure = [CHR ''3'', CHR ''0'', CHR ''0'', CHR 0x22],
       gain = Num 1600, completed = Num 0, status = Pending\<rparr>]"
  by (simp add: planner_run_def initial_planner_def initial_newSequence_def addSequence_def setFrames_def parseInt_5 toString_7)

theorem completed_iff_frames_witness:
  "(let i = last (sequences (planner_run [SetFrames ''5'', AddSequence 7])) in
    i \<in> set (sequences (planner_run [SetFrames ''5'', AddSequence 7])) \<and>
    frames i \<noteq> Num 0 \<and> (status i = Completed) = js_eq (completed i) (frames i))"
  using completed_iff_frames [of "last (sequences (planner_run [SetFrames ''5'', AddSequence 7]))" "[SetFrames ''5'', AddSequence 7]"]
  by (simp add: run_frames_5)

theorem completed_iff_frames_counterexample:
  "js_eq (completed (last (sequences (planner_run [SetFrames ''0'', AddSequence 7]))))
         (frames (last (sequences (planner_run [SetFrames ''0'', AddSequence 7])))) \<and>
   status (last (sequences (planner_run [SetFrames ''0'', AddSequence 7]))) \<noteq> Completed"
  by (simp add: planner_run_def initial_planner_def initial_newSequence_def addSequence_def setFrames_def parseInt_0)


text \<open>
  Claim C3, amended. The status of a sequence item ranges over exactly the four values
  \<open>pending\<close>, \<open>running\<close>, \<open>completed\<close> and \<open>paused\<close>: a string is a status if and only if
  it is one of these four, and every status is one of the four. \<open>failed\<close> and \<open>skipped\<close>
  are no statuses of the item type.
\<close>

theorem status_values:
  "(status_of_string n = Some s) = (status_name s = n) \<and>
   (status_of_string n \<noteq> None) = (n \<in> set [''pending'', ''running'', ''completed'', ''paused'']) \<and>
   s \<in> set [Pending, Running, Completed, Paused]"
  by (cases s) (auto simp: status_of_string_def)

theorem status_values_counterexample:
  "status_of_string ''failed'' = None \<and> status_of_string ''skipped'' = None"
  by (simp add: status_of_string_def)

text \<open>
  Claim C4, amended. \<open>addSequence\<close> never fails: in every state, also when an item is
  running, it appends one new pending item, built from the form, after all existing
  items and leaves these and the form as they are.
\<close>

theorem addSequence_appends:
  "sequences (addSequence now s) = sequences s @ [last (sequences (addSequence now s))] \<and>
   take (length (sequences s)) (sequences (addSequence now s)) = sequences s \<and>
   length (sequences (addSequence now s)) = Suc (length (sequences s)) \<and>
   seq_id (last (sequences (addSequence now s))) = toString now \<and>
   seq_type (last (sequences (addSequence now s))) = new_type (newSequence s) \<and>
   frames (last (sequences (addSequence now s))) = new_frames (newSequence s) \<and>
   exposure (last (sequences (addSequence now s))) = new_exposure (newSequence s) \<and>
   gain (last (sequences (addSequence now s))) = new_gain (newSequence s) \<and>
   completed (last (sequences (addSequence now s))) = Num 0 \<and>
   status (last (sequences (addSequence now s))) = Pending \<and>
   newSequence (addSequence now s) = newSequence s"
  by (simp add: addSequence_def)

theorem addSequence_appends_counterexample:
  "0 < running_count (sequences initial_planner) \<and>
   length (sequences (addSequence 7 initial_planner)) = 3 \<and>
   sequences (addSequence 7 initial_planner) \<noteq> sequences initial_planner"
  by (simp add: addSequence_def running_count_def initial_planner_def initial_sequences_def)

text \<open>
  Claim C5, amended. In every state the planner reaches, the completed count of every
  item is a non-negative integer, and it is at most the frames count of the item whenever
  that frames count is a non-negative number; no event changes the completed count of an
  existing item. The form accepts a negative number and an empty text, and the item added
  then has its completed count \<open>0\<close> above, or not comparable with, its frames count.
\<close>

theorem completed_bounds:
  "(i \<in> set (sequences (planner_run evs)) \<longrightarrow>
      (\<exists>n. 0 \<le> n \<and> completed i = Num n) \<and>
      (js_le (Num 0) (frames i) \<longrightarrow> js_le (completed i) (frames i))) \<and>
   (k < length (sequences s) \<longrightarrow>
      k < length (sequences (planner_step s ev)) \<and>
      completed (sequences (planner_step s ev) ! k) = completed (sequences s ! k))"
proof -
  let ?P = "\<lambda>i. (\<exists>n. 0 \<le> n \<and> completed i = Num n) \<and>
                (js_le (Num 0) (frames i) \<longrightarrow> js_le (completed i) (frames i))"
  have "?P i" if i: "i \<in> set (sequences (planner_run evs))"
  proof (rule planner_items_run [of ?P i evs])
    show "\<And>i. i \<in> set initial_sequences \<Longrightarrow> ?P i"
      by (auto simp: initial_sequences_def)
    show "\<And>i. completed i = Num 0 \<Longrightarrow> status i = Pending \<Longrightarrow> ?P i"
      by simp
    show "i \<in> set (sequences (planner_run evs))" by (rule i)
  qed
  then show ?thesis using step_keeps_items [of k s ev] by simp
qed

lemma run_frames_neg5:
  "sequences (planner_run [SetFrames ''-5'', AddSequence 7]) =
   initial_sequences @ [\<lparr>seq_id = ''7'', seq_type = Subs, frames = Num (- 5), exposure = [CHR ''3'', CHR ''0'', CHR ''0'', CHR 0x22],
       gain = Num 1600, completed = Num 0, status = Pending\<rparr>]"
  by (simp add: planner_run_def initial_planner_def initial_newSequence_def addSequence_def setFrames_def parseInt_neg5 toString_7)

theorem completed_bounds_witness:
  "(let i = last (sequences (planner_run [SetFrames ''5'', AddSequence 7])) in
      i \<in> set (sequences (planner_run [SetFrames ''5'', AddSequence 7])) \<and>
      completed i = Num 0 \<and> js_le (Num 0) (frames i) \<and> js_le (completed i) (frames i)) \<and>
   0 < length (sequences initial_planner) \<and>
   completed (sequences (planner_step initial_planner (AddSequence 7)) ! 0) = completed (sequences initial_planner ! 0)"
  using completed_bounds [of "last (sequences (planner_run [SetFrames ''5'', AddSequence 7]))"
      "[SetFrames ''5'', AddSequence 7]" 0 initial_planner "AddSequence 7"]
  by (simp add: run_frames_5 initial_planner_def initial_sequences_def)

theorem completed_bounds_counterexample:
  "(let i = last (sequences (planner_run [SetFrames ''-5'', AddSequence 7])) in
      frames i = Num (- 5) \<and> completed i = Num 0 \<and> \<not> js_le (completed i) (frames i))"
  by (simp add: run_frames_neg5)

lemma planner_run_snoc: "planner_run (evs @ [ev]) = planner_step (planner_run evs) ev"
  by (simp add: planner_run_def)

lemma entered_frames_snoc:
  "entered_frames (evs @ [ev]) = (case ev of SetFrames v \<Rightarrow> Some v | _ \<Rightarrow> entered_frames evs)"
  unfolding entered_frames_def by simp

lemma new_frames_run:
  "new_frames (newSequence (planner_run evs)) =
     (case entered_frames evs of None \<Rightarrow> Num 30 | Some v \<Rightarrow> parseInt v)"
proof (induction evs rule: rev_induct)
  case Nil
  show ?case
    by (simp add: planner_run_def entered_frames_def initial_planner_def initial_newSequence_def)
next
  case (snoc ev evs)
  show ?case
  proof (cases ev)
    case (AddSequence now)
    then show ?thesis
      using snoc.IH by (simp add: planner_run_snoc entered_frames_snoc addSequence_newSequence)
  next
    case (SetType v)
    then show ?thesis
      using snoc.IH by (simp add: planner_run_snoc entered_frames_snoc setType_def)
  next
    case (SetFrames v)
    then show ?thesis
      by (simp add: planner_run_snoc entered_frames_snoc setFrames_def)
  next
    case (SetExposure v)
    then show ?thesis
      using snoc.IH by (simp add: planner_run_snoc entered_frames_snoc setExposure_def)
  next
    case (SetGain v)
    then show ?thesis
      using snoc.IH by (simp add: planner_run_snoc entered_frames_snoc setGain_def)
  qed
qed

lemma frames_of_added:
  "frames (last (sequences (planner_run (evs @ [AddSequence now])))) =
     (case entered_frames evs of None \<Rightarrow> Num 30 | Some v \<Rightarrow> parseInt v)"
  using new_frames_run [of evs]
  by (simp add: planner_run_snoc addSequence_last(3))

text \<open>
  Claim C7, amended. The frames count of a group is fixed at creation: the group appended
  by \<open>addSequence\<close> has the frames value of the form, which after any sequence of events is
  \<open>parseInt\<close> of the text entered last in the frames field (\<open>30\<close> when none was entered;
  the other fields and \<open>addSequence\<close> leave it alone), so it is a positive integer exactly
  when that text parses to one; no event changes the frames count of an existing item.
\<close>

theorem frames_fixed_at_creation:
  "frames (last (sequences (addSequence now s))) = new_frames (newSequence s) \<and>
   new_frames (newSequence (planner_run evs)) =
     (case entered_frames evs of None \<Rightarrow> Num 30 | Some v \<Rightarrow> parseInt v) \<and>
   frames (last (sequences (planner_run (evs @ [AddSequence now])))) =
     (case entered_frames evs of None \<Rightarrow> Num 30 | Some v \<Rightarrow> parseInt v) \<and>
   is_positive_integer (frames (last (sequences (planner_run (evs @ [AddSequence now]))))) =
     (case entered_frames evs of None \<Rightarrow> True | Some v \<Rightarrow> is_positive_integer (parseInt v)) \<and>
   (k < length (sequences s) \<longrightarrow>
      k < length (sequences (planner_step s ev)) \<and>
      frames (sequences (planner_step s ev) ! k) = frames (sequences s ! k))"
proof -
  have "is_positive_integer (frames (last (sequences (planner_run (evs @ [AddSequence now]))))) =
     (case entered_frames evs of None \<Rightarrow> True | Some v \<Rightarrow> is_positive_integer (parseInt v))"
    by (simp add: frames_of_added split: option.split)
  then show ?thesis
    using step_keeps_items [of k s ev]
    by (simp add: addSequence_last(3) new_frames_run frames_of_added)
qed

lemma entered_frames_5: "entered_frames [SetFrames ''5'', SetGain ''200''] = Some ''5''"
  by (simp add: entered_frames_def)

theorem frames_fixed_at_creation_witness:
  "0 < length (sequences initial_planner) \<and>
   length (sequences (planner_step initial_planner (AddSequence 7))) = 3 \<and>
   frames (sequences (planner_step initial_planner (AddSequence 7)) ! 0) = Num 30 \<and>
   frames (last (sequences (planner_run ([SetFrames ''5'', SetGain ''200''] @ [AddSequence 7])))) = Num 5 \<and>
   is_positive_integer (frames (last (sequences (planner_run ([SetFrames ''5'', SetGain ''200''] @ [AddSequence 7])))))"
  using frames_fixed_at_creation [of 7 initial_planner "[SetFrames ''5'', SetGain ''200'']" 0 "AddSequence 7"]
  by (simp add: entered_frames_5 parseInt_5 addSequence_def initial_planner_def initial_sequences_def)

theorem frames_fixed_at_creation_counterexample:
  "frames (last (sequences (planner_run [SetFrames ''0'', AddSequence 7]))) = Num 0 \<and>
   frames (last (sequences (planner_run [SetFrames [], AddSequence 7]))) = NaN"
  by (simp add: planner_run_def initial_planner_def addSequence_def setFrames_def parseInt_0 parseInt_empty)

text \<open>\<open>parseInt\<close> rounds to the nearest double.\<close>

lemma parseInt_rounds: "parseInt ''9007199254740993'' = Num 9007199254740992"
  by code_simp

subsection \<open>The total duration\<close>

lemma is_integer_Num: "is_integer x \<Longrightarrow> x = Num (num_val x)"
  by (cases x) simp_all

lemma sum_abs_nonneg: "0 \<le> (\<Sum>x\<leftarrow>xs. \<bar>f x :: int\<bar>)"
  by (induction xs) simp_all

lemma foldl_duration_safe:
  assumes "list_all (\<lambda>seq. is_integer (frames seq) \<and> is_integer (exposureSeconds seq)) seqs"
    and "\<bar>a\<bar> + (\<Sum>seq\<leftarrow>seqs. \<bar>num_val (frames seq) * num_val (exposureSeconds seq)\<bar>) < 2 ^ 53"
  shows "foldl (\<lambda>total seq. js_add total (js_mul (frames seq) (exposureSeconds seq))) (Num a) seqs =
         Num (a + (\<Sum>seq\<leftarrow>seqs. num_val (frames seq) * num_val (exposureSeconds seq)))"
  using assms
proof (induction seqs arbitrary: a)
  case Nil
  then show ?case by simp
next
  case (Cons seq seqs)
  define p where "p = num_val (frames seq) * num_val (exposureSeconds seq)"
  define rest where "rest = (\<Sum>seq\<leftarrow>seqs. \<bar>num_val (frames seq) * num_val (exposureSeconds seq)\<bar>)"
  have rest: "0 \<le> rest" unfolding rest_def by (rule sum_abs_nonneg)
  have bound: "\<bar>a\<bar> + \<bar>p\<bar> + rest < 2 ^ 53"
    using Cons.prems(2) by (simp add: p_def rest_def)
  have f: "frames seq = Num (num_val (frames seq))"
    and e: "exposureSeconds seq = Num (num_val (exposureSeconds seq))"
    using Cons.prems(1) by (simp_all add: is_integer_Num)
  have "\<bar>p\<bar> < 2 ^ 53" using bound rest by linarith
  then have mul: "js_mul (frames seq) (exposureSeconds seq) = Num p"
    using js_mul_exact [of "num_val (frames seq)" "num_val (exposureSeconds seq)"] f e
    by (simp add: p_def)
  have "\<bar>a + p\<bar> < 2 ^ 53" using bound rest by linarith
  then have add: "js_add (Num a) (Num p) = Num (a + p)" by (rule js_add_exact)
  have "\<bar>a + p\<bar> + rest < 2 ^ 53" using bound by linarith
  then have "foldl (\<lambda>total seq. js_add total (js_mul (frames seq) (exposureSeconds seq))) (Num (a + p)) seqs =
         Num (a + p + (\<Sum>seq\<leftarrow>seqs. num_val (frames seq) * num_val (exposureSeconds seq)))"
    using Cons.IH [of "a + p"] Cons.prems(1) by (simp add: rest_def)
  moreover have "foldl (\<lambda>total seq. js_add total (js_mul (frames seq) (exposureSeconds seq))) (Num a) (seq # seqs) =
        foldl (\<lambda>total seq. js_add total (js_mul (frames seq) (exposureSeconds seq))) (Num (a + p)) seqs"
    by (simp only: foldl_Cons mul add)
  ultimately show ?case by (simp only: p_def sum_list.Cons list.map add.assoc)
qed

lemma js_add_NaN_right: "js_add x NaN = NaN"
  by (cases x) simp_all

lemma foldl_duration_NaN:
  "foldl (\<lambda>total seq. js_add total (js_mul (frames seq) (exposureSeconds seq))) NaN seqs = NaN"
  by (induction seqs) simp_all

lemma foldl_duration_has_NaN:
  "list_ex (\<lambda>seq. frames seq = NaN) seqs \<Longrightarrow>
   foldl (\<lambda>total seq. js_add total (js_mul (frames seq) (exposureSeconds seq))) acc seqs = NaN"
proof (induction seqs arbitrary: acc)
  case Nil
  then show ?case by simp
next
  case (Cons seq seqs)
  show ?case
  proof (cases "frames seq = NaN")
    case True
    then show ?thesis by (simp add: js_add_NaN_right foldl_duration_NaN)
  next
    case False
    with Cons.prems have "list_ex (\<lambda>seq. frames seq = NaN) seqs" by simp
    then show ?thesis using Cons.IH by simp
  qed
qed

lemma exposureSeconds_update:
  "exposureSeconds (seq\<lparr>completed := c, status := st\<rparr>) = exposureSeconds seq"
  by (simp add: exposureSeconds_def)

text \<open>
  Claim C6, amended. \<open>totalDuration\<close> is the total planned time of the list, not the
  remaining time: it adds up, over all items whatever their status, the frames count times
  the exposure in seconds, and does not depend on the completed counts or on the statuses.
  It equals the exact sum whenever every frames count and every exposure is an integer
  and the absolute values of the products add up to less than \<open>2^53\<close>, so that no step
  rounds; it is \<open>NaN\<close> when some frames count is \<open>NaN\<close>.
\<close>

theorem totalDuration_sum:
  "(list_all (\<lambda>seq. is_integer (frames seq) \<and> is_integer (exposureSeconds seq)) seqs \<and>
    (\<Sum>seq\<leftarrow>seqs. \<bar>num_val (frames seq) * num_val (exposureSeconds seq)\<bar>) < 2 ^ 53 \<longrightarrow>
    totalDuration seqs = Num (\<Sum>seq\<leftarrow>seqs. num_val (frames seq) * num_val (exposureSeconds seq))) \<and>
   (list_ex (\<lambda>seq. frames seq = NaN) seqs \<longrightarrow> totalDuration seqs = NaN) \<and>
   totalDuration (map (\<lambda>seq. seq\<lparr>completed := c seq, status := st seq\<rparr>) seqs) = totalDuration seqs"
proof -
  have "totalDuration (map (\<lambda>seq. seq\<lparr>completed := c seq, status := st seq\<rparr>) seqs) = totalDuration seqs"
    by (simp add: totalDuration_def foldl_map exposureSeconds_update)
  then show ?thesis
    using foldl_duration_safe [of seqs 0] foldl_duration_has_NaN [of seqs "Num 0"]
    by (simp add: totalDuration_def)
qed

lemma initial_sequences_safe:
  "list_all (\<lambda>seq. is_integer (frames seq) \<and> is_integer (exposureSeconds seq)) initial_sequences \<and>
   (\<Sum>seq\<leftarrow>initial_sequences. \<bar>num_val (frames seq) * num_val (exposureSeconds seq)\<bar>) = 12000"
  by code_simp

lemma run_frames_empty:
  "sequences (planner_run [SetFrames [], AddSequence 7]) =
   initial_sequences @ [\<lparr>seq_id = ''7'', seq_type = Subs, frames = NaN, exposure = [CHR ''3'', CHR ''0'', CHR ''0'', CHR 0x22],
       gain = Num 1600, completed = Num 0, status = Pending\<rparr>]"
  by (simp add: planner_run_def initial_planner_def initial_newSequence_def addSequence_def setFrames_def parseInt_empty toString_7)

theorem totalDuration_sum_witness:
  "list_all (\<lambda>seq. is_integer (frames seq) \<and> is_integer (exposureSeconds seq)) initial_sequences \<and>
   (\<Sum>seq\<leftarrow>initial_sequences. \<bar>num_val (frames seq) * num_val (exposureSeconds seq)\<bar>) < 2 ^ 53 \<and>
   totalDuration initial_sequences = Num 12000 \<and>
   list_ex (\<lambda>seq. frames seq = NaN) (sequences (planner_run [SetFrames [], AddSequence 7])) \<and>
   totalDuration (sequences (planner_run [SetFrames [], AddSequence 7])) = NaN"
proof -
  have safe: "list_all (\<lambda>seq. is_integer (frames seq) \<and> is_integer (exposureSeconds seq)) initial_sequences"
    and small: "(\<Sum>seq\<leftarrow>initial_sequences. \<bar>num_val (frames seq) * num_val (exposureSeconds seq)\<bar>) < 2 ^ 53"
    using initial_sequences_safe by simp_all
  have "(\<Sum>seq\<leftarrow>initial_sequences. num_val (frames seq) * num_val (exposureSeconds seq)) = 12000"
    by code_simp
  with totalDuration_sum [of initial_sequences] safe small
  have 1: "totalDuration initial_sequences = Num 12000" by simp
  have nan: "list_ex (\<lambda>seq. frames seq = NaN) (sequences (planner_run [SetFrames [], AddSequence 7]))"
    by (simp add: run_frames_empty)
  with totalDuration_sum [of "sequences (planner_run [SetFrames [], AddSequence 7])"]
  have 2: "totalDuration (sequences (planner_run [SetFrames [], AddSequence 7])) = NaN" by simp
  from safe small 1 nan 2 show ?thesis by simp
qed

theorem totalDuration_counterexample:
  "totalDuration (sequences initial_planner) = Num 12000 \<and>
   spec_remainingSeconds (sequences initial_planner) = Num 8400"
  by code_simp

text \<open>Beyond \<open>2^53\<close> the sum rounds, to a multiple of 512 here.\<close>

lemma totalDuration_rounds:
  "totalDuration (sequences (planner_run [SetFrames ''9007199254740992'', AddSequence 7])) =
   Num 2702159776422309376"
  by code_simp


section \<open>Properties of the FileLibrary\<close>

subsection \<open>The filter against its specification\<close>

lemma str_includes_sublist: "str_includes s t = sublist t s"
  by (induction s) (simp_all add: sublist_Cons_right)

lemma spec_contains_ci_iff:
  "spec_contains_ci name term = str_includes (toLowerCase name) (toLowerCase term)"
proof -
  have "(\<exists>part. sublist part name \<and> map lower_char part = map lower_char term) =
        sublist (map lower_char term) (map lower_char name)"
  proof
    assume "\<exists>part. sublist part name \<and> map lower_char part = map lower_char term"
    then obtain part where "sublist part name" "map lower_char part = map lower_char term"
      by blast
    then show "sublist (map lower_char term) (map lower_char name)"
      using map_mono_sublist [of part name lower_char] by simp
  next
    assume "sublist (map lower_char term) (map lower_char name)"
    then show "\<exists>part. sublist part name \<and> map lower_char part = map lower_char term"
      using sublist_map_rightE [of "map lower_char term" lower_char name] by metis
  qed
  then show ?thesis
    by (simp add: spec_contains_ci_def list_ex_iff Bex_def toLowerCase_def str_includes_sublist)
qed

lemma str_includes_Nil: "str_includes s []"
  by (simp add: str_includes_sublist)

lemma keep_file_spec:
  assumes "ft \<in> set filterTypes"
  shows "keep_file ft st f = (spec_category ft (file_type f) \<and> spec_contains_ci (file_name f) st)"
proof -
  have search: "spec_contains_ci (file_name f) st =
                (st = [] \<or> str_includes (toLowerCase (file_name f)) (toLowerCase st))"
    by (cases st) (simp_all add: spec_contains_ci_iff toLowerCase_def str_includes_Nil)
  from assms consider "ft = ''all''" | "ft = ''image''" | "ft = ''video''" | "ft = ''raw''"
    by (auto simp: filterTypes_def)
  then show ?thesis
  proof cases
    case 1
    then show ?thesis by (auto simp: search keep_file_def spec_category_def)
  next
    case 2
    then show ?thesis
      by (cases "file_type f") (auto simp: search keep_file_def spec_category_def)
  next
    case 3
    then show ?thesis
      by (cases "file_type f") (auto simp: search keep_file_def spec_category_def)
  next
    case 4
    then show ?thesis
      by (cases "file_type f") (auto simp: search keep_file_def spec_category_def)
  qed
qed

lemma keep_file_other:
  assumes "ft \<notin> set filterTypes"
  shows "keep_file ft st f = keep_file ''all'' st f"
proof -
  from assms have "ft \<noteq> ''image''" "ft \<noteq> ''video''" "ft \<noteq> ''raw''"
    by (auto simp: filterTypes_def)
  then show ?thesis by (simp add: keep_file_def)
qed

lemma all_in_filterTypes: "''all'' \<in> set filterTypes"
  by (simp add: filterTypes_def)

text \<open>
  Claim C10. For every search term and each of the four filter types the select offers,
  \<open>filteredFiles\<close> is the list of the mock files, in their order, whose type passes the
  category test of the filter type (\<open>image\<close>: jpeg, dng or tiff; \<open>video\<close>: h264 or mjpeg;
  \<open>raw\<close>: dng; \<open>all\<close>: every type) and whose name contains the search term when letter
  case is ignored. Any other string as the filter type filters as \<open>all\<close> does.
\<close>

theorem filteredFiles_spec:
  "(ft \<in> set filterTypes \<longrightarrow> filteredFiles ft st = spec_filter ft st) \<and>
   (ft \<notin> set filterTypes \<longrightarrow> filteredFiles ft st = spec_filter ''all'' st)"
proof -
  have known: "keep_file ft' st =
        (\<lambda>file. spec_category ft' (file_type file) \<and> spec_contains_ci (file_name file) st)"
    if "ft' \<in> set filterTypes" for ft'
    by (rule ext) (rule keep_file_spec [OF that])
  have other: "keep_file ft st = keep_file ''all'' st" if "ft \<notin> set filterTypes"
    by (rule ext) (rule keep_file_other [OF that])
  show ?thesis
    using known [of ft] known [OF all_in_filterTypes] other
    by (simp add: filteredFiles_def spec_filter_def)
qed

lemma filtered_raw_dark: "map file_id (filteredFiles ''raw'' ''DARK'') = [''4'']"
  by code_simp

lemma filtered_other_m31: "map file_id (filteredFiles ''photo'' ''m31'') = [''1'', ''2'']"
  by code_simp

theorem filteredFiles_spec_witness:
  "''raw'' \<in> set filterTypes \<and> map file_id (spec_filter ''raw'' ''DARK'') = [''4''] \<and>
   ''photo'' \<notin> set filterTypes \<and> map file_id (spec_filter ''all'' ''m31'') = [''1'', ''2'']"
proof -
  have raw: "''raw'' \<in> set filterTypes" and photo: "''photo'' \<notin> set filterTypes"
    by (simp_all add: filterTypes_def)
  from filteredFiles_spec [of "''raw''" "''DARK''"] raw
  have 1: "map file_id (spec_filter ''raw'' ''DARK'') = [''4'']"
    using filtered_raw_dark by simp
  from filteredFiles_spec [of "''photo''" "''m31''"] photo
  have 2: "map file_id (spec_filter ''all'' ''m31'') = [''1'', ''2'']"
    using filtered_other_m31 by simp
  from raw photo 1 2 show ?thesis by simp
qed

subsection \<open>Where the displayed files come from\<close>

lemma filteredFiles_subseq: "subseq (filteredFiles ft st) mockFiles"
  by (simp add: filteredFiles_def)

lemma add_to_group_subseq:
  assumes "list_all (\<lambda>g. subseq (snd g) xs) gs"
  shows "list_all (\<lambda>g. subseq (snd g) (xs @ [x])) (add_to_group gs x)"
proof -
  have 1: "subseq fs (xs @ [x])" if "subseq fs xs" for fs
    using that by (rule subseq_rev_drop_many)
  have 2: "subseq (fs @ [x]) (xs @ [x])" if "subseq fs xs" for fs
    using that by simp
  show ?thesis
    using assms 1 2
    by (auto simp: add_to_group_def Let_def list_all_iff)
qed

lemma foldl_add_to_group_subseq:
  "list_all (\<lambda>g. subseq (snd g) xs) gs \<Longrightarrow>
   list_all (\<lambda>g. subseq (snd g) (xs @ ys)) (foldl add_to_group gs ys)"
proof (induction ys arbitrary: xs gs)
  case Nil
  then show ?case by simp
next
  case (Cons y ys)
  from Cons.IH [OF add_to_group_subseq [OF Cons.prems, of y]] show ?case by simp
qed

lemma groupedFiles_subseq:
  "list_all (\<lambda>g. subseq (snd g) mockFiles) (groupedFiles ft st)"
proof -
  have "list_all (\<lambda>g. subseq (snd g) (filteredFiles ft st)) (groupedFiles ft st)"
    using foldl_add_to_group_subseq [of "[]" "[]" "filteredFiles ft st"]
    by (simp add: groupedFiles_def)
  then show ?thesis
    using filteredFiles_subseq [of ft st]
    by (auto simp: list_all_iff intro: subseq_order.trans)
qed

lemma length_mockFiles: "length mockFiles = 5"
  by (simp add: mockFiles_def)

text \<open>
  Claim C8. Everything the FileLibrary shows comes from the fixed list of five mock files:
  for every filter type and search term the filtered list is an order-preserving sublist
  of \<open>mockFiles\<close>, and so are the displayed list and every group of the sessions tab in
  every state reached by any sequence of events. Changing the sort key or the view mode
  leaves the displayed list as it is, and changing the filter type or the search term only
  selects another sublist; no event touches \<open>mockFiles\<close>, which is no part of the state.
\<close>

theorem displayed_files_from_mockFiles:
  "length mockFiles = 5 \<and>
   subseq (filteredFiles ft st) mockFiles \<and>
   subseq (displayed_files (library_run evs)) mockFiles \<and>
   list_all (\<lambda>g. subseq (snd g) mockFiles) (displayed_groups (library_run evs)) \<and>
   displayed_files (library_step s (SetSortBy v)) = displayed_files s \<and>
   displayed_files (library_step s (SetViewMode m)) = displayed_files s \<and>
   displayed_files (library_step s (SetFilterType ft)) = filteredFiles ft (searchTerm s) \<and>
   displayed_files (library_step s (SetSearchTerm st)) = filteredFiles (filterType s) st"
  by (simp add: length_mockFiles filteredFiles_subseq groupedFiles_subseq displayed_files_def displayed_groups_def)

section \<open>Properties of the TelemetryPanel\<close>

lemma tick_cpuUsage: "10 \<le> cpuUsage (tick r s) \<and> cpuUsage (tick r s) \<le> 90"
  by (simp add: tick_def)

lemma tick_exposureRemaining:
  "exposureRemaining (tick r s) =
     (case exposureRemaining s of None \<Rightarrow> None | Some e \<Rightarrow> if e \<noteq> 0 then Some (max 0 (e - 1)) else None)"
  by (simp add: tick_def)

lemma tick_ok: "telemetry_ok (tick r s)"
  by (simp add: telemetry_ok_def tick_cpuUsage tick_exposureRemaining split: option.split)

lemma ticks_snoc: "ticks (rs @ [r]) = tick r (ticks rs)"
  by (simp add: ticks_def)

lemma ticks_ok: "telemetry_ok (ticks rs)"
proof (cases rs rule: rev_cases)
  case Nil
  then show ?thesis by (simp add: ticks_def telemetry_ok_def initial_telemetry_def)
next
  case (snoc rs' r)
  then show ?thesis by (simp add: ticks_snoc tick_ok)
qed

lemma ticks_exposureRemaining:
  "exposureRemaining (ticks rs) =
     (if length rs \<le> 245 then Some (245 - real (length rs)) else None)"
proof (induction rs rule: rev_induct)
  case Nil
  then show ?case by (simp add: ticks_def initial_telemetry_def)
next
  case (snoc r rs)
  show ?case
  proof (cases "length rs \<le> 245")
    case True
    then have "exposureRemaining (ticks rs) = Some (245 - real (length rs))"
      using snoc.IH by simp
    then show ?thesis using True
      by (auto simp: ticks_snoc tick_exposureRemaining)
  next
    case False
    then show ?thesis using snoc.IH
      by (simp add: ticks_snoc tick_exposureRemaining)
  qed
qed

text \<open>
  Claim C9. The predicate \<open>telemetry_ok\<close> (\<open>cpuUsage\<close> in \<open>[10, 90]\<close>, and
  \<open>exposureRemaining\<close> non-negative while defined) holds in the initial state and after
  every tick, for every value of the random inputs; a tick from a state satisfying it never
  increases \<open>exposureRemaining\<close> and never defines it again; and after \<open>n\<close> ticks from the
  initial state \<open>exposureRemaining\<close> is \<open>245 - n\<close> while \<open>n \<le> 245\<close> and undefined from
  then on.
\<close>

theorem telemetry_invariant:
  "telemetry_ok initial_telemetry \<and>
   telemetry_ok (tick r s) \<and>
   (telemetry_ok s \<longrightarrow>
      (case exposureRemaining (tick r s) of
         None \<Rightarrow> True
       | Some e' \<Rightarrow> (case exposureRemaining s of None \<Rightarrow> False | Some e \<Rightarrow> e' \<le> e))) \<and>
   telemetry_ok (ticks rs) \<and>
   exposureRemaining (ticks rs) =
     (if length rs \<le> 245 then Some (245 - real (length rs)) else None)"
proof -
  have "telemetry_ok initial_telemetry"
    using ticks_ok [of "[]"] by (simp add: ticks_def)
  moreover have "telemetry_ok s \<longrightarrow>
      (case exposureRemaining (tick r s) of
         None \<Rightarrow> True
       | Some e' \<Rightarrow> (case exposureRemaining s of None \<Rightarrow> False | Some e \<Rightarrow> e' \<le> e))"
    by (auto simp: telemetry_ok_def tick_exposureRemaining split: option.splits if_splits)
  ultimately show ?thesis
    by (simp add: tick_ok ticks_ok ticks_exposureRemaining)
qed

theorem telemetry_invariant_witness:
  "telemetry_ok initial_telemetry \<and>
   cpuUsage (tick \<lparr>r_sensorTemp = 0.25, r_cpuTemp = 0.5, r_cpuUsage = 0.75, r_focusMetric = 0\<rparr> initial_telemetry) = 37.5 \<and>
   exposureRemaining (tick \<lparr>r_sensorTemp = 0.25, r_cpuTemp = 0.5, r_cpuUsage = 0.75, r_focusMetric = 0\<rparr> initial_telemetry) = Some 244"
  using telemetry_invariant [of "\<lparr>r_sensorTemp = 0.25, r_cpuTemp = 0.5, r_cpuUsage = 0.75, r_focusMetric = 0\<rparr>" initial_telemetry "[]"]
  by (simp add: tick_def initial_telemetry_def telemetry_ok_def)

end
